theory Spec2Isabelle
  imports Complex_Main "HOL-Library.AList"
begin

section \<open>Python strings\<close>

text \<open>
  A Python \<^verbatim>\<open>str\<close> is a sequence of Unicode code points: \<^verbatim>\<open>len\<close>, the length
  constraints of a field and \<^verbatim>\<open>in\<close> all count code points. The chat messages are
  Japanese, so a byte string would measure them wrongly; a string is a list of code points.
\<close>

type_synonym pystr = "nat list"

definition ascii :: "string \<Rightarrow> pystr" where
  "ascii s = map of_char s"

text \<open>
  The character classes of \<^verbatim>\<open>str.isalnum\<close> and \<^verbatim>\<open>str.strip\<close> on the ASCII range are
  written out. Beyond ASCII they are tables of the Unicode character database, which is
  not part of the repository: the two tables are fields of a parameter.
\<close>

record ucd =
  uni_alnum :: "nat \<Rightarrow> bool"
  uni_space :: "nat \<Rightarrow> bool"

definition char_isalnum :: "ucd \<Rightarrow> nat \<Rightarrow> bool" where
  "char_isalnum u c =
     (if c < 128 then (48 \<le> c \<and> c \<le> 57) \<or> (65 \<le> c \<and> c \<le> 90) \<or> (97 \<le> c \<and> c \<le> 122)
      else uni_alnum u c)"

definition char_isspace :: "ucd \<Rightarrow> nat \<Rightarrow> bool" where
  "char_isspace u c =
     (if c < 128 then (9 \<le> c \<and> c \<le> 13) \<or> (28 \<le> c \<and> c \<le> 32)
      else uni_space u c)"

text \<open>\<^verbatim>\<open>s.isalnum()\<close>: every character is alphanumeric and there is at least one.\<close>

definition isalnum :: "ucd \<Rightarrow> pystr \<Rightarrow> bool" where
  "isalnum u s = (s \<noteq> [] \<and> list_all (char_isalnum u) s)"

text \<open>\<^verbatim>\<open>s.replace(c, "")\<close> for a one-character \<^verbatim>\<open>c\<close>.\<close>

definition replace_char :: "nat \<Rightarrow> pystr \<Rightarrow> pystr" where
  "replace_char c s = filter (\<lambda>x. x \<noteq> c) s"

text \<open>\<^verbatim>\<open>s.strip()\<close>: leading and trailing whitespace removed.\<close>

definition strip :: "ucd \<Rightarrow> pystr \<Rightarrow> pystr" where
  "strip u s = rev (dropWhile (char_isspace u) (rev (dropWhile (char_isspace u) s)))"

text \<open>\<^verbatim>\<open>needle in hay\<close> on strings: \<^verbatim>\<open>needle\<close> occurs as a contiguous run.\<close>

fun starts_with :: "'a list \<Rightarrow> 'a list \<Rightarrow> bool" where
  "starts_with [] _ = True"
| "starts_with (x # xs) [] = False"
| "starts_with (x # xs) (y # ys) = (x = y \<and> starts_with xs ys)"

fun str_contains :: "'a list \<Rightarrow> 'a list \<Rightarrow> bool" where
  "str_contains needle [] = (needle = [])"
| "str_contains needle (h # hay) = (starts_with needle (h # hay) \<or> str_contains needle hay)"


section \<open>Request validation (routers/chat.py, class ChatRequest)\<close>

datatype validation_error = string_too_short | string_too_long | value_error

record ChatRequest =
  message :: pystr
  session_id :: pystr

text \<open>
  The constraints of \<^verbatim>\<open>Field(..., min_length, max_length)\<close> belong to the field's own
  schema; a \<^verbatim>\<open>field_validator\<close> without a mode is an after-validator and receives the
  value only once those constraints have passed.
\<close>

definition str_field :: "nat \<Rightarrow> nat \<Rightarrow> pystr \<Rightarrow> validation_error + pystr" where
  "str_field min_length max_length v =
     (if length v < min_length then Inl string_too_short
      else if length v > max_length then Inl string_too_long
      else Inr v)"

definition sanitize_message :: "ucd \<Rightarrow> pystr \<Rightarrow> validation_error + pystr" where
  "sanitize_message u v = Inr (strip u v)"

definition validate_session_id :: "ucd \<Rightarrow> pystr \<Rightarrow> validation_error + pystr" where
  "validate_session_id u v =
     (if \<not> isalnum u (replace_char 95 (replace_char 45 v)) then Inl value_error
      else Inr v)"

definition message_field :: "ucd \<Rightarrow> pystr \<Rightarrow> validation_error + pystr" where
  "message_field u v =
     (case str_field 1 1000 v of Inl e \<Rightarrow> Inl e | Inr v' \<Rightarrow> sanitize_message u v')"

definition session_id_field :: "ucd \<Rightarrow> pystr \<Rightarrow> validation_error + pystr" where
  "session_id_field u v =
     (case str_field 1 100 v of Inl e \<Rightarrow> Inl e | Inr v' \<Rightarrow> validate_session_id u v')"

text \<open>
  Model validation visits every field and reports the errors of all of them; the
  request object exists only when there is none.
\<close>

definition ChatRequest_validate :: "ucd \<Rightarrow> pystr \<Rightarrow> pystr \<Rightarrow> validation_error list + ChatRequest" where
  "ChatRequest_validate u raw_message raw_session_id =
     (case (message_field u raw_message, session_id_field u raw_session_id) of
        (Inr m, Inr s) \<Rightarrow> Inr \<lparr>message = m, session_id = s\<rparr>
      | (Inl e, Inr s) \<Rightarrow> Inl [e]
      | (Inr m, Inl e) \<Rightarrow> Inl [e]
      | (Inl e, Inl e') \<Rightarrow> Inl [e, e'])"


section \<open>Pin store (services/send_pin.py)\<close>

record SendPin =
  lat :: real
  lon :: real
  name :: pystr

text \<open>
  The events of the response stream. Each constructor stands for one frame
  \<^verbatim>\<open>data: <json>\n\n\<close>, told apart by the \<^verbatim>\<open>type\<close> key of the JSON object:
  \<^verbatim>\<open>pin\<close> with its coordinates and name, \<^verbatim>\<open>agent_response\<close> with its message (the
  keys \<^verbatim>\<open>agent\<close>, \<^verbatim>\<open>agent_name\<close> and \<^verbatim>\<open>round\<close> are constants), \<^verbatim>\<open>error\<close> with
  its message.
\<close>

datatype event = pin_event real real pystr | agent_response pystr | error_event pystr

text \<open>The dictionary \<^verbatim>\<open>{"type": "pin", "lat", "lon", "name"}\<close> that a queue holds.\<close>

record pin_dict =
  d_lat :: real
  d_lon :: real
  d_name :: pystr

definition dumps_pin :: "pin_dict \<Rightarrow> event" where
  "dumps_pin d = pin_event (d_lat d) (d_lon d) (d_name d)"

text \<open>\<^verbatim>\<open>SendPinStore.data\<close>: a \<^verbatim>\<open>defaultdict(list)\<close> from user id to queue.\<close>

type_synonym pin_data = "pystr \<rightharpoonup> pin_dict list"

definition insert_pins :: "pin_data \<Rightarrow> pystr \<Rightarrow> SendPin \<Rightarrow> pin_data" where
  "insert_pins data user_id pin =
     data(user_id \<mapsto>
       (case data user_id of None \<Rightarrow> [] | Some q \<Rightarrow> q)
         @ [\<lparr>d_lat = lat pin, d_lon = lon pin, d_name = name pin\<rparr>])"

text \<open>
  The loop \<^verbatim>\<open>while self.data[user_id]: pins.append(... self.data[user_id].pop())\<close>:
  \<^verbatim>\<open>pop()\<close> takes the last element of the queue.
\<close>

function pop_all :: "pin_dict list \<Rightarrow> event list \<Rightarrow> pin_dict list \<times> event list" where
  "pop_all q pins =
     (if q \<noteq> [] then pop_all (butlast q) (pins @ [dumps_pin (last q)]) else (q, pins))"
  by pat_completeness auto
termination
  by (relation "measure (\<lambda>(q, pins). length q)") auto

declare pop_all.simps [simp del]

definition extract_pins :: "pin_data \<Rightarrow> pystr \<Rightarrow> event list \<times> pin_data" where
  "extract_pins data user_id =
     (case data user_id of
        None \<Rightarrow> ([], data)
      | Some q \<Rightarrow> (case pop_all q [] of (q', pins) \<Rightarrow> (pins, data(user_id \<mapsto> q'))))"


section \<open>Rate limiter (routers/middlewares/rate_limit.py)\<close>

text \<open>
  \<^verbatim>\<open>_REQUEST_COUNTS\<close> maps a client to a dictionary from time stamp to count. The inner
  keys are decimal strings made by \<^verbatim>\<open>str\<close> and read back by \<^verbatim>\<open>int\<close>; the model
  keeps the integer. The inner dictionary is an association list in insertion order.
  The clock, \<^verbatim>\<open>int(datetime.now().timestamp())\<close>, is an argument.
\<close>

type_synonym counts = "(int \<times> int) list"
type_synonym request_counts = "pystr \<rightharpoonup> counts"

text \<open>
  The dictionary of a client once \<^verbatim>\<open>if client_ip not in _REQUEST_COUNTS\<close> has given an
  unknown client an empty one.
\<close>

definition counts_of :: "request_counts \<Rightarrow> pystr \<Rightarrow> counts" where
  "counts_of rc client_ip = (case rc client_ip of None \<Rightarrow> [] | Some d \<Rightarrow> d)"

definition check_rate_limit ::
  "request_counts \<Rightarrow> pystr \<Rightarrow> int \<Rightarrow> int \<Rightarrow> int \<Rightarrow> bool \<times> request_counts" where
  "check_rate_limit rc client_ip current_time limit window =
     (let window_start = current_time - window;
          old = counts_of rc client_ip;
          cleaned = filter (\<lambda>(timestamp, count). timestamp > window_start) old;
          total_requests = sum_list (map snd cleaned)
      in if total_requests \<ge> limit then (False, rc(client_ip \<mapsto> cleaned))
         else
           let current_minute = current_time div 60 * 60
           in (True, rc(client_ip \<mapsto>
                 AList.update current_minute
                   ((case map_of cleaned current_minute of None \<Rightarrow> 0 | Some c \<Rightarrow> c) + 1)
                   cleaned)))"

text \<open>The call of the chat endpoint, with the default limit and window.\<close>

definition allow :: "request_counts \<Rightarrow> pystr \<Rightarrow> int \<Rightarrow> bool \<times> request_counts" where
  "allow rc client_ip current_time = check_rate_limit rc client_ip current_time 10 60"

text \<open>A run of checks for one client, at the given clock readings, oldest first.\<close>

fun allow_seq :: "request_counts \<Rightarrow> pystr \<Rightarrow> int list \<Rightarrow> bool list \<times> request_counts" where
  "allow_seq rc client_ip [] = ([], rc)"
| "allow_seq rc client_ip (t # ts) =
     (case allow rc client_ip t of
        (ok, rc') \<Rightarrow> (case allow_seq rc' client_ip ts of (oks, rc'') \<Rightarrow> (ok # oks, rc'')))"


section \<open>Conversation registry (services/global_state.py)\<close>

text \<open>
  The session service and its \<^verbatim>\<open>sessions\<close> attribute, a dictionary nested by
  application name, user id and session id, belong to the agent framework.
\<close>

record session =
  s_app_name :: pystr
  s_user_id :: pystr
  s_id :: pystr

type_synonym sessions = "pystr \<rightharpoonup> (pystr \<rightharpoonup> (pystr \<rightharpoonup> session))"

definition check_conversation_if_exist :: "sessions \<Rightarrow> pystr \<Rightarrow> pystr \<Rightarrow> pystr \<Rightarrow> bool" where
  "check_conversation_if_exist ss app user_id sid =
     (case ss app of
        None \<Rightarrow> False
      | Some users \<Rightarrow>
          (case users user_id of None \<Rightarrow> False | Some m \<Rightarrow> m sid \<noteq> None))"

text \<open>\<^verbatim>\<open>sessions[app][user_id][sid]\<close>; a missing key is the value \<open>None\<close>.\<close>

definition get_session :: "sessions \<Rightarrow> pystr \<Rightarrow> pystr \<Rightarrow> pystr \<Rightarrow> session option" where
  "get_session ss app user_id sid =
     (case ss app of
        None \<Rightarrow> None
      | Some users \<Rightarrow> (case users user_id of None \<Rightarrow> None | Some m \<Rightarrow> m sid))"

text \<open>
  \<^verbatim>\<open>create_session\<close> of the in-memory session service is framework code: it makes
  a session with the given id and stores it under its three keys, which is what the
  registry check reads afterwards.
\<close>

definition create_session ::
  "sessions \<Rightarrow> pystr \<Rightarrow> pystr \<Rightarrow> pystr \<Rightarrow> session option \<times> sessions" where
  "create_session ss app user_id sid =
     (let s = \<lparr>s_app_name = app, s_user_id = user_id, s_id = sid\<rparr>;
          users = (case ss app of None \<Rightarrow> Map.empty | Some us \<Rightarrow> us);
          m = (case users user_id of None \<Rightarrow> Map.empty | Some m' \<Rightarrow> m')
      in (Some s, ss(app \<mapsto> users(user_id \<mapsto> m(sid \<mapsto> s)))))"


section \<open>Agents (services/agents/custom_agent.py)\<close>

text \<open>An exception in flight: what \<^verbatim>\<open>str(e)\<close> and \<^verbatim>\<open>traceback.format_exc()\<close> give.\<close>

datatype exn = Exception (exn_str: pystr) (format_exc: pystr)

definition IndexError :: exn where
  "IndexError = Exception (ascii ''list index out of range'') []"

definition KeyError :: exn where
  "KeyError = Exception (ascii ''KeyError'') []"

text \<open>The events of a run, as far as \<^verbatim>\<open>stream\<close> reads them.\<close>

datatype part = Part (part_text: "pystr option")
datatype content = Content (content_parts: "part list option")
datatype adk_event = Event (event_content: "content option")

text \<open>
  One run of the framework's runner on a query is outside the repository (a language
  model and its tool calls). What \<^verbatim>\<open>stream\<close> and the pin store see of it: the pins
  that the tools put into the store for the user of the run, in call order; the events
  the asynchronous iterator delivers; and the exception, if any, that ends the
  iteration after them.
\<close>

record run_outcome =
  tool_pins :: "SendPin list"
  run_events :: "adk_event list"
  run_raises :: "exn option"

text \<open>\<^verbatim>\<open>run_async(user_id, session_id, new_message)\<close>, the query first.\<close>

type_synonym runner = "pystr \<Rightarrow> pystr \<Rightarrow> pystr \<Rightarrow> run_outcome"

definition MODEL :: pystr where
  "MODEL = ascii ''MODEL''"

text \<open>The literal appended to an empty result, and the prefix of the failure message.\<close>

definition NO_RESPONSE :: pystr where
  "NO_RESPONSE = [0x5FDC, 0x7B54, 0x3092, 0x751F, 0x6210, 0x3067, 0x304D, 0x307E, 0x305B,
                  0x3093, 0x3067, 0x3057, 0x305F, 0x3002]"

definition ERROR_OCCURRED :: pystr where
  "ERROR_OCCURRED = [0x30A8, 0x30E9, 0x30FC, 0x304C, 0x767A, 0x751F, 0x3057, 0x307E, 0x3057,
                     0x305F, 0x3A, 0x20]"

fun join :: "pystr \<Rightarrow> pystr list \<Rightarrow> pystr" where
  "join sep [] = []"
| "join sep [x] = x"
| "join sep (x # y # ys) = x @ sep @ join sep (y # ys)"

text \<open>
  The body of the \<^verbatim>\<open>async for\<close>: the text of an event with content and parts is its
  non-empty part texts joined by newlines; an empty text is not appended.
\<close>

definition event_response :: "adk_event \<Rightarrow> pystr option" where
  "event_response ev =
     (case event_content ev of
        None \<Rightarrow> None
      | Some c \<Rightarrow>
          (case content_parts c of
             None \<Rightarrow> None
           | Some ps \<Rightarrow>
               if ps = [] then None
               else
                 let response =
                       join [10] (concat (map (\<lambda>p. case part_text p of
                                                    None \<Rightarrow> []
                                                  | Some t \<Rightarrow> if t \<noteq> [] then [t] else []) ps))
                 in if response \<noteq> [] then Some response else None))"

fun collect :: "adk_event list \<Rightarrow> pystr list \<Rightarrow> pystr list" where
  "collect [] result = result"
| "collect (ev # evs) result =
     collect evs (case event_response ev of None \<Rightarrow> result | Some r \<Rightarrow> result @ [r])"

text \<open>The \<^verbatim>\<open>try\<close> block of \<^verbatim>\<open>stream\<close> with its handler.\<close>

definition turn_result :: "run_outcome \<Rightarrow> pystr list" where
  "turn_result out =
     (case run_raises out of
        Some e \<Rightarrow> [ERROR_OCCURRED @ format_exc e]
      | None \<Rightarrow>
          let result = collect (run_events out) []
          in if result = [] then [NO_RESPONSE] else result)"

record app_state =
  sessions :: sessions
  data_stores :: pin_data

definition stream ::
  "runner \<Rightarrow> app_state \<Rightarrow> pystr \<Rightarrow> pystr \<Rightarrow> pystr \<Rightarrow> (exn + pystr list) \<times> app_state" where
  "stream run st query user_id sid =
     (case (if check_conversation_if_exist (sessions st) MODEL user_id sid
            then (get_session (sessions st) MODEL user_id sid, sessions st)
            else create_session (sessions st) MODEL user_id sid) of
        (None, ss) \<Rightarrow> (Inl KeyError, st\<lparr>sessions := ss\<rparr>)
      | (Some s, ss) \<Rightarrow>
          let out = run query user_id (s_id s);
              st' = st\<lparr>sessions := ss,
                       data_stores := fold (\<lambda>pin data. insert_pins data user_id pin)
                                           (tool_pins out) (data_stores st)\<rparr>
          in (Inr (turn_result out), st'))"


section \<open>Chat pipelines (routers/chat.py)\<close>

text \<open>
  The agents of the pipelines. Building one constructs framework objects and may raise;
  a built agent is the runner behind it. The builders and the language model are the
  environment of a request.
\<close>

datatype agent_kind =
  station_agent | suggest_agent | multiple_pin_station_agent | report_agent nat
  | followup_agent | estate_agent

type_synonym env = "agent_kind \<Rightarrow> exn + runner"

text \<open>
  A running generator: the shared state, the events it has yielded, and a log of the
  calls of \<^verbatim>\<open>stream\<close> (agent and query). The log is not a variable of the program; it
  is there so that which agent ran on which input can be stated.
\<close>

record gen_state =
  app :: app_state
  emitted :: "event list"
  calls :: "(agent_kind \<times> pystr) list"

text \<open>\<^verbatim>\<open>xs[-1]\<close>\<close>

definition py_last :: "'a list \<Rightarrow> exn + 'a" where
  "py_last xs = (if xs = [] then Inl IndexError else Inr (last xs))"

definition invoke ::
  "env \<Rightarrow> agent_kind \<Rightarrow> pystr \<Rightarrow> pystr \<Rightarrow> pystr \<Rightarrow> gen_state \<Rightarrow> (exn + pystr list) \<times> gen_state" where
  "invoke env kind query user_id sid g =
     (case env kind of
        Inl e \<Rightarrow> (Inl e, g)
      | Inr run \<Rightarrow>
          (case stream run (app g) query user_id sid of
             (r, st') \<Rightarrow> (r, g\<lparr>app := st', calls := calls g @ [(kind, query)]\<rparr>)))"

text \<open>
  \<^verbatim>\<open>agent = build(...); response = await agent.stream(query, ...); m = response[-1]\<close>
\<close>

definition agent_step ::
  "env \<Rightarrow> agent_kind \<Rightarrow> pystr \<Rightarrow> pystr \<Rightarrow> pystr \<Rightarrow> gen_state \<Rightarrow> (exn + pystr) \<times> gen_state" where
  "agent_step env kind query user_id sid g =
     (case invoke env kind query user_id sid g of
        (Inl e, g') \<Rightarrow> (Inl e, g')
      | (Inr response, g') \<Rightarrow>
          (case py_last response of Inl e \<Rightarrow> (Inl e, g') | Inr m \<Rightarrow> (Inr m, g')))"

definition yield :: "event \<Rightarrow> gen_state \<Rightarrow> gen_state" where
  "yield ev g = g\<lparr>emitted := emitted g @ [ev]\<rparr>"

text \<open>\<^verbatim>\<open>for pin in DATA_STORES.extract_pins(user_id): yield pin\<close>\<close>

definition yield_pins :: "pystr \<Rightarrow> gen_state \<Rightarrow> gen_state" where
  "yield_pins user_id g =
     (case extract_pins (data_stores (app g)) user_id of
        (pins, data') \<Rightarrow>
          g\<lparr>app := (app g)\<lparr>data_stores := data'\<rparr>, emitted := emitted g @ pins\<rparr>)"

definition NO_OUTPUT :: pystr where
  "NO_OUTPUT = [0x51FA, 0x529B, 0x7121]"

definition CONVERSATION_ERROR :: pystr where
  "CONVERSATION_ERROR = [0x4F1A, 0x8A71, 0x4E2D, 0x306B, 0x30A8, 0x30E9, 0x30FC, 0x304C, 0x767A,
                         0x751F, 0x3057, 0x307E, 0x3057, 0x305F, 0x3A, 0x20]"

text \<open>
  The loop \<^verbatim>\<open>for i in range(3)\<close> of the first conversation, over the values of
  \<^verbatim>\<open>i\<close> still to come. The first component of the result is the exception that
  leaves the generator, if one does.
\<close>

fun report_loop ::
  "env \<Rightarrow> pystr \<Rightarrow> pystr \<Rightarrow> pystr \<Rightarrow> nat list \<Rightarrow> gen_state \<Rightarrow> exn option \<times> gen_state" where
  "report_loop env pins_message user_id sid [] g = (None, g)"
| "report_loop env pins_message user_id sid (i # rest) g =
     (case agent_step env (report_agent (i + 1)) pins_message user_id sid g of
        (Inl e, g1) \<Rightarrow> (Some e, g1)
      | (Inr msg, g1) \<Rightarrow>
          if str_contains NO_OUTPUT msg then (None, g1)
          else report_loop env pins_message user_id sid rest (yield (agent_response msg) g1))"

definition generate_first_conversation ::
  "env \<Rightarrow> pystr \<Rightarrow> pystr \<Rightarrow> pystr \<Rightarrow> gen_state \<Rightarrow> exn option \<times> gen_state" where
  "generate_first_conversation env user_message user_id sid g =
     (case agent_step env station_agent user_message user_id sid g of
        (Inl e, g1) \<Rightarrow> (Some e, g1)
      | (Inr pin_message, g1) \<Rightarrow>
     let g2 = yield (agent_response pin_message) (yield_pins user_id g1) in
     (case agent_step env suggest_agent user_message user_id sid g2 of
        (Inl e, g3) \<Rightarrow> (Some e, g3)
      | (Inr suggestion_message, g3) \<Rightarrow>
     let g4 = yield (agent_response suggestion_message) g3 in
     (case agent_step env multiple_pin_station_agent suggestion_message user_id sid g4 of
        (Inl e, g5) \<Rightarrow> (Some e, g5)
      | (Inr pins_message, g5) \<Rightarrow>
     let g6 = yield_pins user_id (yield (agent_response pins_message) g5) in
     (case report_loop env pins_message user_id sid [0, 1, 2] g6 of
        (Some e, g7) \<Rightarrow> (Some e, g7)
      | (None, g7) \<Rightarrow>
     (case agent_step env followup_agent suggestion_message user_id sid g7 of
        (Inl e, g8) \<Rightarrow> (Some e, g8)
      | (Inr followup, g8) \<Rightarrow> (None, yield (agent_response followup) g8))))))"

text \<open>
  The continuation: the whole body is inside \<^verbatim>\<open>try\<close>, and the handler yields one
  error event with \<^verbatim>\<open>str(e)\<close>, after which the generator returns.
\<close>

definition generate_after_second_conversations ::
  "env \<Rightarrow> pystr \<Rightarrow> pystr \<Rightarrow> pystr \<Rightarrow> gen_state \<Rightarrow> exn option \<times> gen_state" where
  "generate_after_second_conversations env msg user_id sid g =
     (case agent_step env estate_agent msg user_id sid g of
        (Inl e, g1) \<Rightarrow> (None, yield (error_event (CONVERSATION_ERROR @ exn_str e)) g1)
      | (Inr reply, g1) \<Rightarrow> (None, yield (agent_response reply) (yield_pins user_id g1)))"

text \<open>
  The endpoint. The framework validates the body into a \<^verbatim>\<open>ChatRequest\<close> before it calls
  \<^verbatim>\<open>chat\<close>, and answers 422 itself when validation fails. The streaming response runs
  the chosen generator to its end.
\<close>

datatype response =
  HTTPException nat
  | StreamingResponse "exn option \<times> gen_state"

record server =
  request_counts :: request_counts
  state :: app_state

definition chat :: "env \<Rightarrow> server \<Rightarrow> ChatRequest \<Rightarrow> pystr \<Rightarrow> int \<Rightarrow> response \<times> server" where
  "chat env srv request client_ip now =
     (case allow (request_counts srv) client_ip now of
        (False, rc) \<Rightarrow> (HTTPException 429, srv\<lparr>request_counts := rc\<rparr>)
      | (True, rc) \<Rightarrow>
          let sid = session_id request;
              user_id = session_id request;
              msg = message request;
              second_coversations = check_conversation_if_exist (sessions (state srv)) MODEL user_id sid;
              generate = (if second_coversations then generate_after_second_conversations
                          else generate_first_conversation);
              run = generate env msg user_id sid \<lparr>app = state srv, emitted = [], calls = []\<rparr>
          in (StreamingResponse run, \<lparr>request_counts = rc, state = app (snd run)\<rparr>))"

definition post_chat ::
  "ucd \<Rightarrow> env \<Rightarrow> server \<Rightarrow> pystr \<Rightarrow> pystr \<Rightarrow> pystr \<Rightarrow> int \<Rightarrow> response \<times> server" where
  "post_chat u env srv raw_message raw_session_id client_ip now =
     (case ChatRequest_validate u raw_message raw_session_id of
        Inl errors \<Rightarrow> (HTTPException 422, srv)
      | Inr request \<Rightarrow> chat env srv request client_ip now)"


text \<open>An event is an error event.\<close>

definition is_error :: "event \<Rightarrow> bool" where
  "is_error ev = (case ev of error_event x \<Rightarrow> True | _ \<Rightarrow> False)"


section \<open>Example inputs\<close>

text \<open>
  Concrete environments on which the theorems below are instantiated: a Unicode table
  with nothing beyond ASCII, runs that answer with one text after their tools have
  inserted some pins, a run that fails, a run without text, and builders that raise.
\<close>

definition example_ucd :: ucd where
  "example_ucd = \<lparr>uni_alnum = \<lambda>c. False, uni_space = \<lambda>c. False\<rparr>"

definition says :: "pystr \<Rightarrow> SendPin list \<Rightarrow> runner" where
  "says txt pins query user_id sid =
     \<lparr>tool_pins = pins, run_events = [Event (Some (Content (Some [Part (Some txt)])))],
      run_raises = None\<rparr>"

definition boom :: exn where
  "boom = Exception (ascii ''boom'') (ascii ''Traceback: boom'')"

definition failing_run :: runner where
  "failing_run query user_id sid =
     \<lparr>tool_pins = [],
      run_events = [Event (Some (Content (Some [Part (Some (ascii ''partial''))])))],
      run_raises = Some boom\<rparr>"

definition silent_run :: runner where
  "silent_run query user_id sid =
     \<lparr>tool_pins = [],
      run_events = [Event None, Event (Some (Content (Some [Part None, Part (Some [])])))],
      run_raises = None\<rparr>"

definition pin_a :: SendPin where "pin_a = \<lparr>lat = 1, lon = 2, name = ascii ''A''\<rparr>"
definition pin_b :: SendPin where "pin_b = \<lparr>lat = 3, lon = 4, name = ascii ''B''\<rparr>"
definition pin_c :: SendPin where "pin_c = \<lparr>lat = 5, lon = 6, name = ascii ''C''\<rparr>"

text \<open>The first report agent reports; the second answers with the marker.\<close>

definition example_env :: env where
  "example_env k =
     (case k of
        station_agent \<Rightarrow> Inr (says (ascii ''located'') [pin_a])
      | suggest_agent \<Rightarrow> Inr (says (ascii ''suggested'') [])
      | multiple_pin_station_agent \<Rightarrow> Inr (says (ascii ''pinned'') [pin_b, pin_c])
      | report_agent n \<Rightarrow> Inr (says (if n = 1 then ascii ''report'' else NO_OUTPUT) [])
      | followup_agent \<Rightarrow> Inr (says (ascii ''followup'') [])
      | estate_agent \<Rightarrow> Inr (says (ascii ''answer'') [pin_a]))"

text \<open>Every report agent answers with the marker.\<close>

definition sentinel_env :: env where
  "sentinel_env k =
     (case k of
        station_agent \<Rightarrow> Inr (says (ascii ''located'') [pin_a])
      | suggest_agent \<Rightarrow> Inr (says (ascii ''suggested'') [])
      | multiple_pin_station_agent \<Rightarrow> Inr (says (ascii ''pinned'') [pin_b, pin_c])
      | report_agent n \<Rightarrow> Inr (says NO_OUTPUT [])
      | followup_agent \<Rightarrow> Inr (says (ascii ''followup'') [])
      | estate_agent \<Rightarrow> Inr (says (ascii ''answer'') [pin_a]))"

definition broken_env :: env where
  "broken_env k = Inl boom"

definition fresh :: app_state where
  "fresh = \<lparr>sessions = Map.empty, data_stores = Map.empty\<rparr>"

definition start :: gen_state where
  "start = \<lparr>app = fresh, emitted = [], calls = []\<rparr>"

definition fresh_server :: server where
  "fresh_server = \<lparr>request_counts = Map.empty, state = fresh\<rparr>"

text \<open>The server after a first request on session \<^verbatim>\<open>s1\<close>.\<close>

definition after_first :: server where
  "after_first = snd (post_chat example_ucd example_env fresh_server (ascii ''hi'') (ascii ''s1'')
                        (ascii ''10.0.0.1'') 0)"

lemmas example_defs =
  example_ucd_def says_def boom_def failing_run_def silent_run_def pin_a_def pin_b_def pin_c_def
  example_env_def sentinel_env_def broken_env_def fresh_def start_def fresh_server_def

lemmas pipeline_defs =
  generate_first_conversation_def generate_after_second_conversations_def agent_step_def
  invoke_def stream_def check_conversation_if_exist_def get_session_def create_session_def
  turn_result_def event_response_def py_last_def yield_def yield_pins_def extract_pins_def
  insert_pins_def dumps_pin_def NO_OUTPUT_def NO_RESPONSE_def MODEL_def ascii_def Let_def
  pop_all.simps

lemmas endpoint_defs =
  post_chat_def chat_def allow_def check_rate_limit_def counts_of_def ChatRequest_validate_def
  message_field_def session_id_field_def str_field_def sanitize_message_def strip_def
  char_isspace_def validate_session_id_def isalnum_def replace_char_def char_isalnum_def


section \<open>Properties of the pin store\<close>

lemma pop_all_eq: "pop_all q pins = ([], pins @ map dumps_pin (rev q))"
proof (induction q pins rule: pop_all.induct)
  case (1 q pins)
  show ?case
  proof (cases "q = []")
    case True
    then show ?thesis by (simp add: pop_all.simps)
  next
    case False
    then obtain xs x where q: "q = xs @ [x]" by (metis rev_exhaust)
    with 1 False show ?thesis
      by (subst pop_all.simps) simp
  qed
qed

lemma extract_pins_Some:
  "data uid = Some q \<Longrightarrow> extract_pins data uid = (map dumps_pin (rev q), data(uid \<mapsto> []))"
  by (simp add: extract_pins_def pop_all_eq)

lemma extract_pins_None: "data uid = None \<Longrightarrow> extract_pins data uid = ([], data)"
  by (simp add: extract_pins_def)

text \<open>
  Claim C3. For every user id whose queue is empty (the user is unknown to the store, or
  known with nothing queued): after \<open>p1\<close>, \<open>p2\<close>, \<open>p3\<close> are inserted in this order,
  one drain returns the events of \<open>p3\<close>, \<open>p2\<close>, \<open>p1\<close> in this order; a second drain
  returns the empty list; and a drain with nothing inserted returns the empty list, not
  an error.
\<close>

theorem pin_store_drain_lifo:
  assumes "data uid = None \<or> data uid = Some []"
  shows "fst (extract_pins (insert_pins (insert_pins (insert_pins data uid p1) uid p2) uid p3) uid)
           = [pin_event (lat p3) (lon p3) (name p3), pin_event (lat p2) (lon p2) (name p2),
              pin_event (lat p1) (lon p1) (name p1)]
         \<and> fst (extract_pins (snd (extract_pins
                  (insert_pins (insert_pins (insert_pins data uid p1) uid p2) uid p3) uid)) uid) = []
         \<and> fst (extract_pins data uid) = []"
  using assms
  by (auto simp: insert_pins_def extract_pins_Some extract_pins_None dumps_pin_def)

theorem pin_store_drain_lifo_witness:
  "fst (extract_pins (insert_pins (insert_pins (insert_pins Map.empty (ascii ''u1'')
          \<lparr>lat = 1, lon = 2, name = ascii ''a''\<rparr>) (ascii ''u1'')
          \<lparr>lat = 3, lon = 4, name = ascii ''b''\<rparr>) (ascii ''u1'')
          \<lparr>lat = 5, lon = 6, name = ascii ''c''\<rparr>) (ascii ''u1''))
     = [pin_event 5 6 (ascii ''c''), pin_event 3 4 (ascii ''b''), pin_event 1 2 (ascii ''a'')]
   \<and> fst (extract_pins (snd (extract_pins (insert_pins (insert_pins (insert_pins Map.empty
          (ascii ''u1'')
          \<lparr>lat = 1, lon = 2, name = ascii ''a''\<rparr>) (ascii ''u1'')
          \<lparr>lat = 3, lon = 4, name = ascii ''b''\<rparr>) (ascii ''u1'')
          \<lparr>lat = 5, lon = 6, name = ascii ''c''\<rparr>) (ascii ''u1''))) (ascii ''u1'')) = []
   \<and> fst (extract_pins Map.empty (ascii ''u1'')) = []"
  using pin_store_drain_lifo [of Map.empty "ascii ''u1''" "\<lparr>lat = 1, lon = 2, name = ascii ''a''\<rparr>"
     "\<lparr>lat = 3, lon = 4, name = ascii ''b''\<rparr>" "\<lparr>lat = 5, lon = 6, name = ascii ''c''\<rparr>"]
  by simp


section \<open>Properties of request validation\<close>

lemma replace_only_separators:
  "set v \<subseteq> {45, 95} \<Longrightarrow> replace_char 95 (replace_char 45 v) = []"
  by (induction v) (auto simp: replace_char_def)

text \<open>
  Claim C9. A session id of 1 to 100 characters, each a hyphen (45) or an underscore
  (95), is rejected: with the hyphens and underscores removed nothing is left, and the
  empty string is not alphanumeric. The validator raises its value error, the field
  fails with it, and no request object is made.
\<close>

theorem separator_only_session_id_rejected:
  assumes "1 \<le> length v" and "length v \<le> 100" and "set v \<subseteq> {45, 95}"
  shows "validate_session_id u v = Inl value_error
         \<and> session_id_field u v = Inl value_error
         \<and> (\<exists>errors. ChatRequest_validate u m v = Inl errors)"
  using assms
  by (auto simp: validate_session_id_def session_id_field_def str_field_def isalnum_def
      replace_only_separators ChatRequest_validate_def split: sum.splits)

theorem separator_only_session_id_rejected_witness:
  "validate_session_id \<lparr>uni_alnum = \<lambda>c. False, uni_space = \<lambda>c. False\<rparr> (ascii ''---'')
     = Inl value_error
   \<and> session_id_field \<lparr>uni_alnum = \<lambda>c. False, uni_space = \<lambda>c. False\<rparr> (ascii ''---'')
     = Inl value_error
   \<and> (\<exists>errors. ChatRequest_validate \<lparr>uni_alnum = \<lambda>c. False, uni_space = \<lambda>c. False\<rparr>
         (ascii ''hello'') (ascii ''---'') = Inl errors)"
  using separator_only_session_id_rejected
    [of "ascii ''---''" "\<lparr>uni_alnum = \<lambda>c. False, uni_space = \<lambda>c. False\<rparr>" "ascii ''hello''"]
  by (simp add: ascii_def)

text \<open>
  Claim C7, at the input where the code departs from it. The message of three spaces has
  length 3, so it passes the length constraints of the field; the validator then strips
  it, and the request is accepted with the empty message (the session id is the claim's
  own accepted example).
\<close>

theorem whitespace_message_accepted:
  "ChatRequest_validate u (ascii ''   '') (ascii ''abc-123_ok'')
     = Inr \<lparr>message = [], session_id = ascii ''abc-123_ok''\<rparr>"
  by (simp add: ChatRequest_validate_def message_field_def session_id_field_def str_field_def
      sanitize_message_def strip_def char_isspace_def validate_session_id_def isalnum_def
      replace_char_def char_isalnum_def ascii_def)


section \<open>Properties of the rate limiter\<close>

lemma bucket_in_window: "x - 60 < x div 60 * 60" for x :: int
  by (simp add: algebra_simps)

lemma counts_of_upd [simp]: "counts_of (rc(ip \<mapsto> d)) ip = d"
  by (simp add: counts_of_def)

lemma filter_window_mono:
  "(t::int) \<le> t' \<Longrightarrow>
   filter (\<lambda>(timestamp, count). timestamp > t' - w) (filter (\<lambda>(timestamp, count). timestamp > t - w) xs)
   = filter (\<lambda>(timestamp, count). timestamp > t' - w) xs"
  by (induction xs) auto

lemma allow_same_bucket:
  assumes "counts_of rc ip = [(m, j)]" and "x div 60 * 60 = m" and "j < 10"
  shows "allow rc ip x = (True, rc(ip \<mapsto> [(m, j + 1)]))"
  using assms bucket_in_window [of x]
  by (simp add: allow_def check_rate_limit_def Let_def)

lemma allow_bucket_full:
  assumes "counts_of rc ip = [(m, j)]" and "x div 60 * 60 = m" and "10 \<le> j"
  shows "allow rc ip x = (False, rc(ip \<mapsto> [(m, j)]))"
  using assms bucket_in_window [of x]
  by (simp add: allow_def check_rate_limit_def Let_def)

lemma filter_all_old:
  "\<forall>k \<in> fst ` set d. k + 60 \<le> (x::int) \<Longrightarrow> filter (\<lambda>(timestamp, count). timestamp > x - 60) d = []"
  by (induction d) auto

lemma allow_after_window:
  assumes "\<forall>k \<in> fst ` set (counts_of rc ip). k + 60 \<le> x"
  shows "allow rc ip x = (True, rc(ip \<mapsto> [(x div 60 * 60, 1)]))"
  using filter_all_old [OF assms]
  by (simp add: allow_def check_rate_limit_def Let_def)

lemma allow_seq_same_bucket:
  assumes "\<forall>x \<in> set xs. x div 60 * 60 = m" and "j + int (length xs) \<le> 10"
  shows "allow_seq (rc(ip \<mapsto> [(m, j)])) ip xs
         = (replicate (length xs) True, rc(ip \<mapsto> [(m, j + int (length xs))]))"
  using assms
proof (induction xs arbitrary: j)
  case Nil
  then show ?case by simp
next
  case (Cons x xs)
  from Cons.prems
  have "allow (rc(ip \<mapsto> [(m, j)])) ip x = (True, (rc(ip \<mapsto> [(m, j)]))(ip \<mapsto> [(m, j + 1)]))"
    by (intro allow_same_bucket) auto
  then have step: "allow (rc(ip \<mapsto> [(m, j)])) ip x = (True, rc(ip \<mapsto> [(m, j + 1)]))"
    by simp
  have "allow_seq (rc(ip \<mapsto> [(m, j + 1)])) ip xs
        = (replicate (length xs) True, rc(ip \<mapsto> [(m, (j + 1) + int (length xs))]))"
    using Cons.prems by (intro Cons.IH) auto
  with step show ?case by (simp add: ac_simps del: fun_upd_apply)
qed

lemma allow_seq_append:
  "allow_seq rc ip (xs @ ys) =
     (case allow_seq rc ip xs of (a, rc') \<Rightarrow>
        (case allow_seq rc' ip ys of (b, rc'') \<Rightarrow> (a @ b, rc'')))"
  by (induction xs arbitrary: rc) (auto split: prod.splits)

lemma eleventh_in_bucket:
  assumes old: "\<forall>k \<in> fst ` set (counts_of rc ip). \<forall>x \<in> set ts. k + 60 \<le> x"
    and len: "length ts = 10"
    and bucket: "\<forall>x \<in> set (ts @ [t]). x div 60 = b"
  shows "fst (allow_seq rc ip (ts @ [t])) = replicate 10 True @ [False]"
proof -
  from len obtain x xs where ts: "ts = x # xs" and lxs: "length xs = 9"
    by (cases ts) auto
  let ?m = "b * 60"
  from bucket ts have bx: "x div 60 * 60 = ?m" and bxs: "\<forall>y \<in> set xs. y div 60 * 60 = ?m"
    and bt: "t div 60 * 60 = ?m" by auto
  from old ts have "\<forall>k \<in> fst ` set (counts_of rc ip). k + 60 \<le> x" by auto
  then have first: "allow rc ip x = (True, rc(ip \<mapsto> [(?m, 1)]))"
    using allow_after_window [of rc ip x] bx by simp
  have rest: "allow_seq (rc(ip \<mapsto> [(?m, 1)])) ip xs
              = (replicate 9 True, rc(ip \<mapsto> [(?m, 10)]))"
    using allow_seq_same_bucket [of xs ?m 1 rc ip] bxs lxs by simp
  have final: "allow (rc(ip \<mapsto> [(?m, 10)])) ip t = (False, rc(ip \<mapsto> [(?m, 10)]))"
    using bt allow_bucket_full [of "rc(ip \<mapsto> [(?m, 10)])" ip ?m 10 t] by simp
  have "replicate 10 True = True # replicate 9 True"
    by (simp add: numeral_eq_Suc)
  then show ?thesis
    unfolding ts by (simp add: allow_seq_append first rest final)
qed

lemma keys_filter:
  "fst ` set (filter (\<lambda>(timestamp, count). P timestamp) d) = {k \<in> fst ` set d. P k}"
  by (induction d) auto

lemma keys_allow:
  "fst ` set (counts_of (snd (allow rc ip x)) ip)
     \<subseteq> insert (x div 60 * 60) (fst ` set (counts_of rc ip))"
  by (auto simp: allow_def check_rate_limit_def Let_def dom_update keys_filter)

lemma keys_allow_seq:
  "fst ` set (counts_of (snd (allow_seq rc ip xs)) ip)
     \<subseteq> fst ` set (counts_of rc ip) \<union> (\<lambda>x. x div 60 * 60) ` set xs"
proof (induction xs arbitrary: rc)
  case Nil
  then show ?case by simp
next
  case (Cons x xs)
  obtain ok rc' where a: "allow rc ip x = (ok, rc')" by (cases "allow rc ip x")
  obtain oks rc'' where b: "allow_seq rc' ip xs = (oks, rc'')" by (cases "allow_seq rc' ip xs")
  from Cons.IH [of rc'] b keys_allow [of rc ip x] a show ?case by auto
qed

lemma pruned_after_check:
  "\<forall>k \<in> fst ` set (counts_of (snd (allow rc ip x)) ip). x - 60 < k"
proof -
  have "fst ` set (counts_of (snd (allow rc ip x)) ip)
          \<subseteq> insert (x div 60 * 60) {k \<in> fst ` set (counts_of rc ip). x - 60 < k}"
    by (simp add: allow_def check_rate_limit_def Let_def dom_update keys_filter) force
  with bucket_in_window [of x] show ?thesis by auto
qed

lemma accepted_after_window:
  assumes "\<forall>k \<in> fst ` set (counts_of rc ip). k + 60 \<le> t" and "\<forall>x \<in> set ts. x + 60 \<le> t"
  shows "last (fst (allow_seq rc ip (ts @ [t]))) = True"
proof -
  obtain oks rc' where run: "allow_seq rc ip ts = (oks, rc')" by (cases "allow_seq rc ip ts")
  have "x div 60 * 60 \<le> x" for x :: int by (simp add: algebra_simps)
  with assms keys_allow_seq [of rc ip ts] run
  have "\<forall>k \<in> fst ` set (counts_of rc' ip). k + 60 \<le> t" by fastforce
  then have "allow rc' ip t = (True, rc'(ip \<mapsto> [(t div 60 * 60, 1)]))"
    by (rule allow_after_window)
  with run show ?thesis by (simp add: allow_seq_append)
qed

text \<open>
  Claim C6, at the input where the code departs from it. A client unknown before makes
  ten requests at second 59 and an eleventh at second 60, one second later and well
  within the window of 60. The ten are recorded under the start of their clock minute,
  time stamp 0; at second 60 the window starts at 0, the test \<^verbatim>\<open>int(timestamp) > window_start\<close>
  drops that entry although its requests are one second old, the total is 0, and the
  eleventh request is accepted.
\<close>

theorem eleventh_within_window_accepted:
  "fst (allow_seq Map.empty (ascii ''10.0.0.1'') [59, 59, 59, 59, 59, 59, 59, 59, 59, 59, 60])
     = [True, True, True, True, True, True, True, True, True, True, True]"
  by (simp add: allow_def check_rate_limit_def counts_of_def Let_def)

text \<open>
  Claim C10. When \<^verbatim>\<open>check_rate_limit\<close> returns false for a client, the new state is the
  old one with that client's entries pruned and nothing else: no request is recorded.
  Hence at any later time a check gives the same answer and the same state as if the
  rejected call had not been made; the rejected request neither counts toward the window
  nor lengthens the block.
\<close>

theorem rejected_call_only_prunes:
  assumes "check_rate_limit rc client_ip t limit window = (False, rc')"
  shows "rc' = rc(client_ip \<mapsto>
                 filter (\<lambda>(timestamp, count). timestamp > t - window) (counts_of rc client_ip))
         \<and> (\<forall>t' \<ge> t. check_rate_limit rc' client_ip t' limit window
                       = check_rate_limit rc client_ip t' limit window)"
proof -
  let ?cl = "filter (\<lambda>(timestamp, count). timestamp > t - window) (counts_of rc client_ip)"
  from assms have rc': "rc' = rc(client_ip \<mapsto> ?cl)"
    by (auto simp: check_rate_limit_def Let_def split: if_splits)
  have "check_rate_limit rc' client_ip t' limit window = check_rate_limit rc client_ip t' limit window"
    if "t \<le> t'" for t'
    using that by (simp add: rc' check_rate_limit_def filter_window_mono Let_def del: filter_filter)
  with rc' show ?thesis by blast
qed

theorem rejected_call_only_prunes_witness:
  "check_rate_limit (Map.empty(ascii ''10.0.0.1'' \<mapsto> [(-60, 3), (0, 10)])) (ascii ''10.0.0.1'') 30 10 60
     = (False, Map.empty(ascii ''10.0.0.1'' \<mapsto> [(0, 10)]))
   \<and> check_rate_limit (Map.empty(ascii ''10.0.0.1'' \<mapsto> [(0, 10)])) (ascii ''10.0.0.1'') 45 10 60
     = check_rate_limit (Map.empty(ascii ''10.0.0.1'' \<mapsto> [(-60, 3), (0, 10)])) (ascii ''10.0.0.1'') 45 10 60"
  using rejected_call_only_prunes
    [of "Map.empty(ascii ''10.0.0.1'' \<mapsto> [(-60, 3), (0, 10)])" "ascii ''10.0.0.1''" 30 10 60
        "Map.empty(ascii ''10.0.0.1'' \<mapsto> [(0, 10)])"]
  by (simp add: check_rate_limit_def Let_def)


section \<open>Properties of the agent wrapper\<close>

lemma check_get_session:
  "check_conversation_if_exist ss nm uid sid \<longleftrightarrow> get_session ss nm uid sid \<noteq> None"
  by (simp add: check_conversation_if_exist_def get_session_def split: option.splits)

lemma check_after_create:
  "check_conversation_if_exist (snd (create_session ss nm uid sid)) nm uid sid"
  by (simp add: check_conversation_if_exist_def create_session_def Let_def)

lemma turn_result_nonempty: "turn_result out \<noteq> []"
  by (simp add: turn_result_def Let_def split: option.splits)

lemma stream_existing:
  assumes "get_session (sessions st) MODEL uid sid = Some s"
  shows "stream run st query uid sid
         = (Inr (turn_result (run query uid (s_id s))),
            st\<lparr>data_stores := fold (\<lambda>pin data. insert_pins data uid pin)
                                      (tool_pins (run query uid (s_id s))) (data_stores st)\<rparr>)"
  using assms by (simp add: stream_def Let_def check_get_session)

lemma stream_new:
  assumes "\<not> check_conversation_if_exist (sessions st) MODEL uid sid"
  shows "stream run st query uid sid
         = (Inr (turn_result (run query uid sid)),
            st\<lparr>sessions := snd (create_session (sessions st) MODEL uid sid),
               data_stores := fold (\<lambda>pin data. insert_pins data uid pin)
                                      (tool_pins (run query uid sid)) (data_stores st)\<rparr>)"
  using assms by (simp add: stream_def Let_def create_session_def)

lemma stream_returns:
  "\<exists>s st'. stream run st query uid sid = (Inr (turn_result (run query uid s)), st')
     \<and> check_conversation_if_exist (sessions st') MODEL uid sid"
proof (cases "check_conversation_if_exist (sessions st) MODEL uid sid")
  case True
  then obtain s where "get_session (sessions st) MODEL uid sid = Some s"
    by (auto simp: check_get_session)
  from stream_existing [OF this] True show ?thesis by auto
next
  case False
  from stream_new [OF this] check_after_create [of "sessions st" MODEL uid sid]
  show ?thesis by auto
qed

lemma collect_acc: "collect evs acc = acc @ collect evs []"
proof (induction evs arbitrary: acc)
  case Nil
  then show ?case by simp
next
  case (Cons ev evs)
  show ?case
  proof (cases "event_response ev")
    case None
    then show ?thesis using Cons.IH [of acc] by simp
  next
    case (Some r)
    have "collect evs (acc @ [r]) = (acc @ [r]) @ collect evs []" by (rule Cons.IH)
    moreover have "collect evs [r] = [r] @ collect evs []" by (rule Cons.IH)
    ultimately show ?thesis using Some by simp
  qed
qed

lemma collect_empty_iff: "collect evs [] = [] \<longleftrightarrow> (\<forall>ev \<in> set evs. event_response ev = None)"
proof (induction evs)
  case Nil
  then show ?case by simp
next
  case (Cons ev evs)
  show ?case
  proof (cases "event_response ev")
    case None
    then show ?thesis using Cons.IH by simp
  next
    case (Some r)
    have "collect evs [r] = [r] @ collect evs []" by (rule collect_acc)
    then show ?thesis using Some by simp
  qed
qed

lemma turn_result_raised:
  "run_raises out = Some e \<Longrightarrow> turn_result out = [ERROR_OCCURRED @ format_exc e]"
  by (simp add: turn_result_def)

lemma turn_result_silent:
  "run_raises out = None \<Longrightarrow> \<forall>ev \<in> set (run_events out). event_response ev = None
   \<Longrightarrow> turn_result out = [NO_RESPONSE]"
  by (simp add: turn_result_def collect_empty_iff)

text \<open>
  The literal that replaces an empty result does not contain the marker that ends the
  report loop: they are two different texts.
\<close>

lemma no_response_is_not_the_marker: "\<not> str_contains NO_OUTPUT NO_RESPONSE"
  by (simp add: NO_OUTPUT_def NO_RESPONSE_def)

text \<open>
  Claim C4. Every call of \<^verbatim>\<open>stream\<close> returns a result, for some run \<open>out\<close> of the
  agent's runner on the query, and does not raise. The result is never empty. When the
  run raised, the result is the single failure message (the fixed prefix followed by the
  traceback text); when the run ended without any text in its events, the result is the
  single literal that stands for an empty answer.
\<close>

theorem agent_stream_fail_soft:
  "\<exists>out st'. stream run st query uid sid = (Inr (turn_result out), st')
     \<and> out \<in> range (run query uid)
     \<and> turn_result out \<noteq> []
     \<and> (\<forall>e. run_raises out = Some e \<longrightarrow> turn_result out = [ERROR_OCCURRED @ format_exc e])
     \<and> (run_raises out = None \<and> (\<forall>ev \<in> set (run_events out). event_response ev = None)
          \<longrightarrow> turn_result out = [NO_RESPONSE])"
proof -
  obtain s st' where "stream run st query uid sid = (Inr (turn_result (run query uid s)), st')"
    using stream_returns [of run st query uid sid] by blast
  then show ?thesis
    using turn_result_nonempty turn_result_raised turn_result_silent
    by (intro exI [of _ "run query uid s"] exI [of _ st']) blast
qed

theorem agent_stream_fail_soft_witness:
  "fst (stream failing_run fresh (ascii ''hi'') (ascii ''s1'') (ascii ''s1''))
     = Inr [ERROR_OCCURRED @ ascii ''Traceback: boom'']
   \<and> fst (stream silent_run fresh (ascii ''hi'') (ascii ''s1'') (ascii ''s1''))
     = Inr [NO_RESPONSE]"
  using agent_stream_fail_soft [of failing_run fresh "ascii ''hi''" "ascii ''s1''" "ascii ''s1''"]
    agent_stream_fail_soft [of silent_run fresh "ascii ''hi''" "ascii ''s1''" "ascii ''s1''"]
  by (auto simp: failing_run_def silent_run_def boom_def event_response_def)


section \<open>Properties of the pipelines\<close>

lemma yield_simps [simp]:
  "emitted (yield ev g) = emitted g @ [ev]" "calls (yield ev g) = calls g" "app (yield ev g) = app g"
  by (simp_all add: yield_def)

lemma yield_pins_simps [simp]:
  "emitted (yield_pins u g) = emitted g @ fst (extract_pins (data_stores (app g)) u)"
  "calls (yield_pins u g) = calls g"
  "sessions (app (yield_pins u g)) = sessions (app g)"
  by (simp_all add: yield_pins_def split: prod.splits)

lemma extract_pins_events:
  "\<exists>q. fst (extract_pins data u) = map dumps_pin q"
  by (cases "data u") (auto simp: extract_pins_None extract_pins_Some)

lemma stream_Inr:
  "\<exists>r st'. stream run st q u s = (Inr r, st') \<and> r \<noteq> []
     \<and> check_conversation_if_exist (sessions st') MODEL u s"
  using stream_returns [of run st q u s] turn_result_nonempty by blast

lemma agent_step_cases:
  obtains (raised) e where "env k = Inl e" and "agent_step env k q u s g = (Inl e, g)"
  | (returned) m g' where "agent_step env k q u s g = (Inr m, g')"
      and "emitted g' = emitted g" and "calls g' = calls g @ [(k, q)]"
      and "check_conversation_if_exist (sessions (app g')) MODEL u s"
proof (cases "env k")
  case (Inl e)
  then have "agent_step env k q u s g = (Inl e, g)"
    by (simp add: agent_step_def invoke_def)
  with Inl show ?thesis by (rule raised)
next
  case (Inr run)
  obtain r st' where st: "stream run (app g) q u s = (Inr r, st')" and r: "r \<noteq> []"
    and ex: "check_conversation_if_exist (sessions st') MODEL u s"
    using stream_Inr [of run "app g" q u s] by blast
  let ?g' = "g\<lparr>app := st', calls := calls g @ [(k, q)]\<rparr>"
  from Inr st r have "agent_step env k q u s g = (Inr (last r), ?g')"
    by (simp add: agent_step_def invoke_def py_last_def)
  then show ?thesis using ex by (intro returned [of "last r" ?g']) auto
qed

lemma agent_step_calls:
  assumes "agent_step env k q u s g = (r, g')"
  shows "calls g' = calls g \<or> calls g' = calls g @ [(k, q)]"
  by (rule agent_step_cases [of env k q u s g]) (use assms in auto)

lemma agent_step_emitted:
  assumes "agent_step env k q u s g = (r, g')"
  shows "emitted g' = emitted g"
  by (rule agent_step_cases [of env k q u s g]) (use assms in auto)

lemma agent_step_Inl:
  assumes "agent_step env k q u s g = (Inl e, g')"
  shows "g' = g \<and> env k = Inl e"
  by (rule agent_step_cases [of env k q u s g]) (use assms in auto)

lemma agent_step_Inr:
  assumes "agent_step env k q u s g = (Inr m, g')"
  shows "emitted g' = emitted g \<and> calls g' = calls g @ [(k, q)]
         \<and> check_conversation_if_exist (sessions (app g')) MODEL u s"
  by (rule agent_step_cases [of env k q u s g]) (use assms in auto)

lemma first_conversation_preserves:
  assumes step: "\<And>k q g r g'. k \<noteq> estate_agent \<Longrightarrow> I g \<Longrightarrow> agent_step env k q u s g = (r, g') \<Longrightarrow> I g'"
    and yld: "\<And>m g. I g \<Longrightarrow> I (yield (agent_response m) g)"
    and pins: "\<And>g. I g \<Longrightarrow> I (yield_pins u g)"
    and "I g"
  shows "I (snd (generate_first_conversation env msg u s g))"
  unfolding generate_first_conversation_def Let_def
  using \<open>I g\<close>
  by (auto split: prod.splits sum.splits option.splits
      dest!: step [rotated 2] intro!: yld pins)

lemma first_conversation_no_estate:
  assumes "estate_agent \<notin> fst ` set (calls g)"
  shows "estate_agent \<notin> fst ` set (calls (snd (generate_first_conversation env msg u s g)))"
proof (rule first_conversation_preserves [where I = "\<lambda>g. estate_agent \<notin> fst ` set (calls g)"])
  fix k q g r g'
  assume "k \<noteq> estate_agent" "estate_agent \<notin> fst ` set (calls g)"
    "agent_step env k q u s g = (r, g')"
  then show "estate_agent \<notin> fst ` set (calls g')"
    using agent_step_calls [of env k q u s g r g'] by auto
qed (use assms in auto)

lemma first_conversation_no_error_event:
  assumes "\<not> list_ex is_error (emitted g)"
  shows "\<not> list_ex is_error (emitted (snd (generate_first_conversation env msg u s g)))"
proof (rule first_conversation_preserves [where I = "\<lambda>g. \<not> list_ex is_error (emitted g)"])
  fix k q r g' and g :: gen_state
  assume "\<not> list_ex is_error (emitted g)" "agent_step env k q u s g = (r, g')"
  then show "\<not> list_ex is_error (emitted g')"
    using agent_step_emitted [of env k q u s g r g'] by simp
next
  fix g :: gen_state
  assume "\<not> list_ex is_error (emitted g)"
  then show "\<not> list_ex is_error (emitted (yield_pins u g))"
    using extract_pins_events [of "data_stores (app g)" u]
    by (auto simp: list_ex_iff is_error_def dumps_pin_def)
qed (use assms in \<open>auto simp: is_error_def\<close>)

lemma after_second_calls:
  "calls (snd (generate_after_second_conversations env msg u s g)) = calls g
   \<or> calls (snd (generate_after_second_conversations env msg u s g)) = calls g @ [(estate_agent, msg)]"
  by (rule agent_step_cases [of env estate_agent msg u s g])
     (auto simp: generate_after_second_conversations_def)

lemma report_loop_trace:
  assumes "report_loop env pm u s is g = (r, g')"
  shows "\<exists>n reports. n \<le> length is \<and> length reports \<le> n
           \<and> calls g' = calls g @ map (\<lambda>i. (report_agent (i + 1), pm)) (take n is)
           \<and> emitted g' = emitted g @ map agent_response reports"
  using assms
proof (induction "is" arbitrary: g)
  case Nil
  then have "g' = g" by simp
  then show ?case by (intro exI [of _ 0] exI [of _ "[]"]) simp
next
  case (Cons i rest)
  show ?case
  proof (rule agent_step_cases [of env "report_agent (i + 1)" pm u s g])
    fix e assume "agent_step env (report_agent (i + 1)) pm u s g = (Inl e, g)"
    with Cons.prems have "g' = g" by simp
    then show ?thesis by (intro exI [of _ 0] exI [of _ "[]"]) simp
  next
    fix m g1
    assume a: "agent_step env (report_agent (i + 1)) pm u s g = (Inr m, g1)"
      and em: "emitted g1 = emitted g"
      and ca: "calls g1 = calls g @ [(report_agent (i + 1), pm)]"
    show ?thesis
    proof (cases "str_contains NO_OUTPUT m")
      case True
      with Cons.prems a have "g' = g1" by simp
      with em ca show ?thesis by (intro exI [of _ 1] exI [of _ "[]"]) simp
    next
      case False
      with Cons.prems a
      have "report_loop env pm u s rest (yield (agent_response m) g1) = (r, g')" by simp
      from Cons.IH [OF this] obtain n reports where
        n: "n \<le> length rest" "length reports \<le> n"
        and c: "calls g' = calls (yield (agent_response m) g1)
                  @ map (\<lambda>i. (report_agent (i + 1), pm)) (take n rest)"
        and e: "emitted g' = emitted (yield (agent_response m) g1) @ map agent_response reports"
        by blast
      with em ca show ?thesis
        by (intro exI [of _ "Suc n"] exI [of _ "m # reports"]) simp
    qed
  qed
qed

lemma report_loop_sentinel:
  assumes "agent_step env (report_agent (i + 1)) pm u s g = (Inr NO_OUTPUT, g1)"
  shows "report_loop env pm u s (i # rest) g = (None, g1) \<and> emitted g1 = emitted g"
proof -
  have "str_contains NO_OUTPUT NO_OUTPUT" by (simp add: NO_OUTPUT_def)
  with assms agent_step_emitted [OF assms] show ?thesis by simp
qed

lemma first_conversation_trace:
  assumes "generate_first_conversation env msg u s g = (None, g')"
  shows "\<exists>pin_message sm pm followup pins1 pins2 n reports.
           n \<le> 3 \<and> length reports \<le> n
           \<and> calls g' = calls g @ [(station_agent, msg), (suggest_agent, msg),
                                    (multiple_pin_station_agent, sm)]
                          @ map (\<lambda>i. (report_agent (i + 1), pm)) (take n [0, 1, 2])
                          @ [(followup_agent, sm)]
           \<and> emitted g' = emitted g @ map dumps_pin pins1
                            @ [agent_response pin_message, agent_response sm, agent_response pm]
                            @ map dumps_pin pins2 @ map agent_response reports
                            @ [agent_response followup]"
proof -
  note d = generate_first_conversation_def Let_def
  from assms obtain pin_message g1 where
    a1: "agent_step env station_agent msg u s g = (Inr pin_message, g1)"
    by (auto simp: d split: prod.splits sum.splits)
  define g2 where "g2 = yield (agent_response pin_message) (yield_pins u g1)"
  from assms a1 obtain sm g3 where
    a2: "agent_step env suggest_agent msg u s g2 = (Inr sm, g3)"
    by (auto simp: d g2_def split: prod.splits sum.splits)
  define g4 where "g4 = yield (agent_response sm) g3"
  from assms a1 a2 obtain pm g5 where
    a3: "agent_step env multiple_pin_station_agent sm u s g4 = (Inr pm, g5)"
    by (auto simp: d g2_def g4_def split: prod.splits sum.splits)
  define g6 where "g6 = yield_pins u (yield (agent_response pm) g5)"
  from assms a1 a2 a3 obtain g7 where
    a4: "report_loop env pm u s [0, 1, 2] g6 = (None, g7)"
    by (auto simp: d g2_def g4_def g6_def simp del: report_loop.simps
        split: prod.splits sum.splits option.splits)
  from assms a1 a2 a3 a4 obtain followup g8 where
    a5: "agent_step env followup_agent sm u s g7 = (Inr followup, g8)"
    and g': "g' = yield (agent_response followup) g8"
    by (auto simp: d g2_def g4_def g6_def simp del: report_loop.simps
        split: prod.splits sum.splits option.splits)
  obtain pins1 where p1: "fst (extract_pins (data_stores (app g1)) u) = map dumps_pin pins1"
    using extract_pins_events by blast
  obtain pins2 where p2: "fst (extract_pins (data_stores (app g5)) u) = map dumps_pin pins2"
    using extract_pins_events by blast
  from report_loop_trace [OF a4] obtain n reports where
    n0: "n \<le> length [0::nat, 1, 2]" and n1: "length reports \<le> n"
    and c: "calls g7 = calls g6 @ map (\<lambda>i. (report_agent (i + 1), pm)) (take n [0, 1, 2])"
    and e: "emitted g7 = emitted g6 @ map agent_response reports"
    by blast
  from n0 n1 have n: "n \<le> 3" "length reports \<le> n" by simp_all
  note s1 = agent_step_Inr [OF a1] and s2 = agent_step_Inr [OF a2]
    and s3 = agent_step_Inr [OF a3] and s5 = agent_step_Inr [OF a5]
  have "calls g' = calls g @ [(station_agent, msg), (suggest_agent, msg),
                                    (multiple_pin_station_agent, sm)]
                          @ map (\<lambda>i. (report_agent (i + 1), pm)) (take n [0, 1, 2])
                          @ [(followup_agent, sm)]"
    using s1 s2 s3 s5 c by (simp add: g' g2_def g4_def g6_def)
  moreover have "emitted g' = emitted g @ map dumps_pin pins1
                            @ [agent_response pin_message, agent_response sm, agent_response pm]
                            @ map dumps_pin pins2 @ map agent_response reports
                            @ [agent_response followup]"
    using s1 s2 s3 s5 e p1 p2 by (simp add: g' g2_def g4_def g6_def)
  ultimately show ?thesis using n by blast
qed

text \<open>
  Claim C1, at the input where the code departs from it. In a first conversation whose
  station agent puts pin A and whose agent for several stations puts pins B and C, the
  pin of the first step comes before that step's message, but the message of the step
  for several stations (\<open>pinned\<close>) is yielded before the pins C and B drained for it.
\<close>

theorem pins_message_before_its_pins:
  "emitted (snd (generate_first_conversation example_env (ascii ''hi'') (ascii ''s1'') (ascii ''s1'') start))
   = [pin_event 1 2 (ascii ''A''), agent_response (ascii ''located''),
      agent_response (ascii ''suggested''),
      agent_response (ascii ''pinned''), pin_event 5 6 (ascii ''C''), pin_event 3 4 (ascii ''B''),
      agent_response (ascii ''report''), agent_response (ascii ''followup'')]"
  by (simp add: example_defs pipeline_defs)

text \<open>
  Claim C2. For a request that passes validation and the rate limiter, the response
  streams the continuation generator when the registry holds a session for
  \<^verbatim>\<open>MODEL\<close> and the request's session id (used as user id and as session id), and the
  first-conversation generator otherwise; the test is made once, on the state the
  request finds. The first-conversation generator never calls the agent of the
  continuation, although the registry holds the session as soon as its first agent has
  run; when it ends without an exception its calls are the station agent, the suggestion
  agent, the agent for several stations, up to three report agents and the follow-up
  agent, in this order. The continuation generator calls the agent of the continuation
  alone, at most once.
\<close>

theorem branch_selected_once:
  assumes "ChatRequest_validate ud raw_message raw_sid = Inr request"
    and "allow (request_counts srv) client_ip now = (True, rc)"
    and "sid = session_id request" and "msg = message request"
    and "g0 = \<lparr>app = state srv, emitted = [], calls = []\<rparr>"
  shows "fst (post_chat ud env srv raw_message raw_sid client_ip now)
         = StreamingResponse
             (if check_conversation_if_exist (sessions (state srv)) MODEL sid sid
              then generate_after_second_conversations env msg sid sid g0
              else generate_first_conversation env msg sid sid g0)
         \<and> estate_agent \<notin> fst ` set (calls (snd (generate_first_conversation env msg sid sid g0)))
         \<and> (\<forall>m g1. agent_step env station_agent msg sid sid g0 = (Inr m, g1)
               \<longrightarrow> check_conversation_if_exist (sessions (app g1)) MODEL sid sid)
         \<and> (\<forall>g'. generate_first_conversation env msg sid sid g0 = (None, g')
               \<longrightarrow> (\<exists>sm pm n. n \<le> 3 \<and>
                      calls g' = [(station_agent, msg), (suggest_agent, msg),
                                  (multiple_pin_station_agent, sm)]
                                 @ map (\<lambda>i. (report_agent (i + 1), pm)) (take n [0, 1, 2])
                                 @ [(followup_agent, sm)]))
         \<and> (calls (snd (generate_after_second_conversations env msg sid sid g0)) = []
            \<or> calls (snd (generate_after_second_conversations env msg sid sid g0))
               = [(estate_agent, msg)])"
proof -
  have "fst (post_chat ud env srv raw_message raw_sid client_ip now)
         = StreamingResponse
             (if check_conversation_if_exist (sessions (state srv)) MODEL sid sid
              then generate_after_second_conversations env msg sid sid g0
              else generate_first_conversation env msg sid sid g0)"
    using assms by (simp add: post_chat_def chat_def Let_def)
  moreover have "estate_agent \<notin> fst ` set (calls (snd (generate_first_conversation env msg sid sid g0)))"
    using assms(5) by (intro first_conversation_no_estate) simp
  moreover have "check_conversation_if_exist (sessions (app g1)) MODEL sid sid"
    if "agent_step env station_agent msg sid sid g0 = (Inr m, g1)" for m g1
    using agent_step_Inr [OF that] by simp
  moreover have "\<exists>sm pm n. n \<le> 3 \<and>
                      calls g' = [(station_agent, msg), (suggest_agent, msg),
                                  (multiple_pin_station_agent, sm)]
                                 @ map (\<lambda>i. (report_agent (i + 1), pm)) (take n [0, 1, 2])
                                 @ [(followup_agent, sm)]"
    if "generate_first_conversation env msg sid sid g0 = (None, g')" for g'
    using first_conversation_trace [OF that] assms(5) by auto
  moreover have "calls (snd (generate_after_second_conversations env msg sid sid g0)) = []
            \<or> calls (snd (generate_after_second_conversations env msg sid sid g0))
               = [(estate_agent, msg)]"
    using after_second_calls [of env msg sid sid g0] assms(5) by simp
  ultimately show ?thesis by blast
qed

lemma after_first_state:
  "check_conversation_if_exist (sessions (state after_first)) MODEL (ascii ''s1'') (ascii ''s1'')"
  "request_counts after_first (ascii ''10.0.0.1'') = Some [(0, 1)]"
  by (simp_all add: after_first_def example_defs pipeline_defs endpoint_defs)

theorem branch_selected_once_witness:
  "fst (post_chat example_ucd example_env fresh_server (ascii ''hi'') (ascii ''s1'')
          (ascii ''10.0.0.1'') 0)
     = StreamingResponse
         (generate_first_conversation example_env (ascii ''hi'') (ascii ''s1'') (ascii ''s1'') start)
   \<and> calls (snd (generate_first_conversation example_env (ascii ''hi'') (ascii ''s1'')
                   (ascii ''s1'') start))
     = [(station_agent, ascii ''hi''), (suggest_agent, ascii ''hi''),
        (multiple_pin_station_agent, ascii ''suggested''),
        (report_agent 1, ascii ''pinned''), (report_agent 2, ascii ''pinned''),
        (followup_agent, ascii ''suggested'')]
   \<and> fst (post_chat example_ucd example_env after_first (ascii ''more'') (ascii ''s1'')
          (ascii ''10.0.0.1'') 1)
     = StreamingResponse
         (generate_after_second_conversations example_env (ascii ''more'') (ascii ''s1'')
            (ascii ''s1'') \<lparr>app = state after_first, emitted = [], calls = []\<rparr>)
   \<and> calls (snd (generate_after_second_conversations example_env (ascii ''more'') (ascii ''s1'')
            (ascii ''s1'') \<lparr>app = state after_first, emitted = [], calls = []\<rparr>))
     = [(estate_agent, ascii ''more'')]"
proof -
  have v1: "ChatRequest_validate example_ucd (ascii ''hi'') (ascii ''s1'')
            = Inr \<lparr>message = ascii ''hi'', session_id = ascii ''s1''\<rparr>"
    by (simp add: example_defs endpoint_defs ascii_def)
  have v2: "ChatRequest_validate example_ucd (ascii ''more'') (ascii ''s1'')
            = Inr \<lparr>message = ascii ''more'', session_id = ascii ''s1''\<rparr>"
    by (simp add: example_defs endpoint_defs ascii_def)
  have a1: "allow (request_counts fresh_server) (ascii ''10.0.0.1'') 0
            = (True, snd (allow (request_counts fresh_server) (ascii ''10.0.0.1'') 0))"
    by (simp add: example_defs endpoint_defs)
  have a2: "allow (request_counts after_first) (ascii ''10.0.0.1'') 1
            = (True, snd (allow (request_counts after_first) (ascii ''10.0.0.1'') 1))"
    by (simp add: after_first_state endpoint_defs)
  have g: "start = \<lparr>app = state fresh_server, emitted = [], calls = []\<rparr>"
    by (simp add: start_def fresh_server_def)
  have no: "\<not> check_conversation_if_exist (sessions (state fresh_server)) MODEL (ascii ''s1'') (ascii ''s1'')"
    by (simp add: example_defs check_conversation_if_exist_def)
  have c2: "calls (snd (generate_after_second_conversations example_env (ascii ''more'') (ascii ''s1'')
            (ascii ''s1'') \<lparr>app = state after_first, emitted = [], calls = []\<rparr>)) \<noteq> []"
    by (simp add: generate_after_second_conversations_def agent_step_def invoke_def example_env_def
        stream_def Let_def after_first_state says_def turn_result_def event_response_def py_last_def
        yield_def yield_pins_def check_get_session split: prod.splits option.splits)
  have c1: "calls (snd (generate_first_conversation example_env (ascii ''hi'') (ascii ''s1'')
                   (ascii ''s1'') start))
     = [(station_agent, ascii ''hi''), (suggest_agent, ascii ''hi''),
        (multiple_pin_station_agent, ascii ''suggested''),
        (report_agent 1, ascii ''pinned''), (report_agent 2, ascii ''pinned''),
        (followup_agent, ascii ''suggested'')]"
    by (simp add: example_defs pipeline_defs)
  show ?thesis
    using branch_selected_once [OF v1 a1 _ _ g, of "ascii ''s1''" "ascii ''hi''" example_env]
      branch_selected_once [OF v2 a2, of "ascii ''s1''" "ascii ''more''"
         "\<lparr>app = state after_first, emitted = [], calls = []\<rparr>" example_env]
      no after_first_state(1) c1 c2
    by simp
qed

text \<open>
  Claim C5. The report loop calls at most three report agents, for the slots 1, 2, 3 in
  this order and each on the same input, and yields at most one message per call. When
  the agent of a slot answers with the marker, the loop ends there without an exception:
  nothing is yielded for that slot and no later slot is called (so nothing at all is
  yielded when this is the first slot). In every first conversation that ends without an
  exception, the input of the report agents is the message yielded for the step for
  several stations, the reports are followed by a call of the follow-up agent, and the input
  of that call is the message of the suggestion step, not a report.
\<close>

theorem report_loop_early_termination:
  "(\<exists>n reports. n \<le> 3 \<and> length reports \<le> n
      \<and> calls (snd (report_loop env pm u s [0, 1, 2] h))
          = calls h @ map (\<lambda>i. (report_agent (i + 1), pm)) (take n [0, 1, 2])
      \<and> emitted (snd (report_loop env pm u s [0, 1, 2] h))
          = emitted h @ map agent_response reports)
   \<and> (agent_step env (report_agent (i + 1)) pm u s h = (Inr NO_OUTPUT, h1)
        \<longrightarrow> report_loop env pm u s (i # rest) h = (None, h1) \<and> emitted h1 = emitted h)
   \<and> (generate_first_conversation env msg u s g = (None, g')
        \<longrightarrow> (\<exists>pin_message suggestion_message pins_message followup pins1 pins2 n reports.
              n \<le> 3 \<and> length reports \<le> n
              \<and> calls g' = calls g @ [(station_agent, msg), (suggest_agent, msg),
                                       (multiple_pin_station_agent, suggestion_message)]
                             @ map (\<lambda>i. (report_agent (i + 1), pins_message)) (take n [0, 1, 2])
                             @ [(followup_agent, suggestion_message)]
              \<and> emitted g' = emitted g @ map dumps_pin pins1
                               @ [agent_response pin_message, agent_response suggestion_message,
                                  agent_response pins_message]
                               @ map dumps_pin pins2 @ map agent_response reports
                               @ [agent_response followup]))"
proof -
  obtain r h' where l: "report_loop env pm u s [0, 1, 2] h = (r, h')"
    by (cases "report_loop env pm u s [0, 1, 2] h")
  from report_loop_trace [OF l] obtain n reports where
    "n \<le> length [0::nat, 1, 2]" "length reports \<le> n"
    "calls h' = calls h @ map (\<lambda>i. (report_agent (i + 1), pm)) (take n [0, 1, 2])"
    "emitted h' = emitted h @ map agent_response reports"
    by blast
  then have "\<exists>n reports. n \<le> 3 \<and> length reports \<le> n
      \<and> calls (snd (report_loop env pm u s [0, 1, 2] h))
          = calls h @ map (\<lambda>i. (report_agent (i + 1), pm)) (take n [0, 1, 2])
      \<and> emitted (snd (report_loop env pm u s [0, 1, 2] h))
          = emitted h @ map agent_response reports"
    unfolding l by (intro exI [of _ n] exI [of _ reports]) simp
  then show ?thesis
    using report_loop_sentinel [of env i pm u s h h1 rest]
      first_conversation_trace [of env msg u s g g']
    by blast
qed

theorem report_loop_early_termination_witness:
  "report_loop sentinel_env (ascii ''pinned'') (ascii ''s1'') (ascii ''s1'') [0, 1, 2] start
     = (None, snd (agent_step sentinel_env (report_agent 1) (ascii ''pinned'') (ascii ''s1'')
                     (ascii ''s1'') start))
   \<and> emitted (snd (report_loop sentinel_env (ascii ''pinned'') (ascii ''s1'') (ascii ''s1'')
                     [0, 1, 2] start)) = []
   \<and> calls (snd (generate_first_conversation sentinel_env (ascii ''hi'') (ascii ''s1'')
                   (ascii ''s1'') start))
     = [(station_agent, ascii ''hi''), (suggest_agent, ascii ''hi''),
        (multiple_pin_station_agent, ascii ''suggested''),
        (report_agent 1, ascii ''pinned''), (followup_agent, ascii ''suggested'')]
   \<and> emitted (snd (generate_first_conversation sentinel_env (ascii ''hi'') (ascii ''s1'')
                   (ascii ''s1'') start))
     = [pin_event 1 2 (ascii ''A''), agent_response (ascii ''located''),
        agent_response (ascii ''suggested''), agent_response (ascii ''pinned''),
        pin_event 5 6 (ascii ''C''), pin_event 3 4 (ascii ''B''),
        agent_response (ascii ''followup'')]"
proof -
  have st: "agent_step sentinel_env (report_agent (0 + 1)) (ascii ''pinned'') (ascii ''s1'')
              (ascii ''s1'') start
            = (Inr NO_OUTPUT, snd (agent_step sentinel_env (report_agent 1) (ascii ''pinned'')
                 (ascii ''s1'') (ascii ''s1'') start))"
    by (simp add: example_defs pipeline_defs)
  have em: "emitted start = []" by (simp add: start_def)
  have run: "generate_first_conversation sentinel_env (ascii ''hi'') (ascii ''s1'') (ascii ''s1'') start
     = (None, snd (generate_first_conversation sentinel_env (ascii ''hi'') (ascii ''s1'')
                   (ascii ''s1'') start))"
    by (simp add: example_defs pipeline_defs)
  have c: "calls (snd (generate_first_conversation sentinel_env (ascii ''hi'') (ascii ''s1'')
                   (ascii ''s1'') start))
     = [(station_agent, ascii ''hi''), (suggest_agent, ascii ''hi''),
        (multiple_pin_station_agent, ascii ''suggested''),
        (report_agent 1, ascii ''pinned''), (followup_agent, ascii ''suggested'')]"
    by (simp add: example_defs pipeline_defs)
  have e: "emitted (snd (generate_first_conversation sentinel_env (ascii ''hi'') (ascii ''s1'')
                   (ascii ''s1'') start))
     = [pin_event 1 2 (ascii ''A''), agent_response (ascii ''located''),
        agent_response (ascii ''suggested''), agent_response (ascii ''pinned''),
        pin_event 5 6 (ascii ''C''), pin_event 3 4 (ascii ''B''),
        agent_response (ascii ''followup'')]"
    by (simp add: example_defs pipeline_defs)
  show ?thesis
    using report_loop_early_termination
      [of sentinel_env "ascii ''pinned''" "ascii ''s1''" "ascii ''s1''" start 0
          "snd (agent_step sentinel_env (report_agent 1) (ascii ''pinned'') (ascii ''s1'')
                 (ascii ''s1'') start)" "[1, 2]" "ascii ''hi''" start
          "snd (generate_first_conversation sentinel_env (ascii ''hi'') (ascii ''s1'')
                   (ascii ''s1'') start)"]
      st em run c e
    by (simp del: report_loop.simps)
qed

text \<open>
  Claim C8. When the step of the continuation raises, the generator yields one error
  event, whose message is the fixed prefix followed by \<^verbatim>\<open>str(e)\<close>, and returns: that
  event is the last of the stream, and no exception leaves the generator, whatever
  happens. The first conversation has no handler: an exception of a step leaves the
  generator (shown for the first step), and the generator never yields an error event.
\<close>

theorem continuation_error_guard:
  "(agent_step env estate_agent msg u s g = (Inl e, g1)
      \<longrightarrow> generate_after_second_conversations env msg u s g
            = (None, g\<lparr>emitted := emitted g @ [error_event (CONVERSATION_ERROR @ exn_str e)]\<rparr>))
   \<and> fst (generate_after_second_conversations env msg u s g) = None
   \<and> (env station_agent = Inl e \<longrightarrow> generate_first_conversation env msg u s g = (Some e, g))
   \<and> (\<not> list_ex is_error (emitted g)
      \<longrightarrow> \<not> list_ex is_error (emitted (snd (generate_first_conversation env msg u s g))))"
proof -
  have "generate_after_second_conversations env msg u s g
            = (None, g\<lparr>emitted := emitted g @ [error_event (CONVERSATION_ERROR @ exn_str e)]\<rparr>)"
    if "agent_step env estate_agent msg u s g = (Inl e, g1)"
    using that agent_step_Inl [OF that]
    by (simp add: generate_after_second_conversations_def yield_def)
  moreover have "fst (generate_after_second_conversations env msg u s g) = None"
    by (simp add: generate_after_second_conversations_def split: prod.splits sum.splits)
  moreover have "generate_first_conversation env msg u s g = (Some e, g)"
    if "env station_agent = Inl e"
    using that by (simp add: generate_first_conversation_def agent_step_def invoke_def)
  ultimately show ?thesis using first_conversation_no_error_event [of g env msg u s] by blast
qed

theorem continuation_error_guard_witness:
  "generate_after_second_conversations broken_env (ascii ''more'') (ascii ''s1'') (ascii ''s1'') start
     = (None, start\<lparr>emitted := [error_event (CONVERSATION_ERROR @ ascii ''boom'')]\<rparr>)
   \<and> generate_first_conversation broken_env (ascii ''hi'') (ascii ''s1'') (ascii ''s1'') start
     = (Some boom, start)
   \<and> \<not> list_ex is_error (emitted (snd (generate_first_conversation example_env (ascii ''hi'')
                                          (ascii ''s1'') (ascii ''s1'') start)))"
proof -
  have st: "agent_step broken_env estate_agent (ascii ''more'') (ascii ''s1'') (ascii ''s1'') start
            = (Inl boom, start)"
    by (simp add: agent_step_def invoke_def broken_env_def)
  have b: "broken_env station_agent = Inl boom" by (simp add: broken_env_def)
  have em: "emitted start = []" by (simp add: start_def)
  show ?thesis
    using continuation_error_guard
      [of broken_env "ascii ''more''" "ascii ''s1''" "ascii ''s1''" start boom start]
      continuation_error_guard
      [of broken_env "ascii ''hi''" "ascii ''s1''" "ascii ''s1''" start boom start]
      continuation_error_guard
      [of example_env "ascii ''hi''" "ascii ''s1''" "ascii ''s1''" start boom start]
      st b em
    by (simp add: boom_def)
qed

end
